theory Spec2Isabelle
  imports Main "HOL-Library.Word" "HOL-Library.AList" "HOL-Library.Sublist"
begin

section \<open>Reflected values\<close>

text \<open>
  The dumper walks \<^verbatim>\<open>reflect.Value\<close>s.  A value is modelled by its kind, its type (the
  two strings the code reads from it: \<^verbatim>\<open>Type().String()\<close> and \<^verbatim>\<open>Type().PkgPath()\<close>)
  and its content.  Struct fields, array and slice elements, map entries and the
  content of an interface are held in place; a pointer holds an address, read
  through the heap of the environment, so that pointer graphs can be cyclic.
  A map holds its entries in the order in which \<^verbatim>\<open>MapKeys\<close> returns them in the run
  at hand.  Slices and maps are not shared between values in this model.
\<close>

datatype Kind = Invalid | Bool | IntKind | Int8 | Int16 | Int32 | Int64
  | Uint | Uint8 | Uint16 | Uint32 | Uint64 | Uintptr | Float32 | Float64
  | Complex64 | Complex128 | Array | Chan | Func | Interface | Map | Ptr
  | Slice | String | Struct | UnsafePointer

type_synonym uintptr = "64 word"

text \<open>A float64 as its IEEE 754 bit pattern (a float32 widened, as \<^verbatim>\<open>Value.Float\<close> does).\<close>
type_synonym float64 = "64 word"

datatype rtype = RType (typeString: string) (typePkgPath: string)

datatype intSize = S8 | S16 | S32 | S64 | SInt
datatype uintSize = U8 | U16 | U32 | U64 | UInt | UPtr
datatype floatSize = F32 | F64
datatype complexSize = C64 | C128
datatype refKind = RChan | RFunc | RUnsafePointer

datatype val =
    VInvalid
  | VBool rtype bool
  | VInt intSize rtype "64 word"
  | VUint uintSize rtype "64 word"
  | VFloat floatSize rtype float64
  | VComplex complexSize rtype float64 float64
  | VString rtype string
  | VSlice rtype "val list option"
  | VArray rtype "val list"
  | VMap rtype "(val \<times> val) list option"
  | VStruct rtype "(string \<times> val) list"
  | VInterface rtype "val option"
  | VPtr rtype uintptr
  | VRef refKind rtype uintptr

fun kindOf :: "val \<Rightarrow> Kind" where
  "kindOf VInvalid = Invalid"
| "kindOf (VBool t b) = Bool"
| "kindOf (VInt sz t i) =
     (case sz of S8 \<Rightarrow> Int8 | S16 \<Rightarrow> Int16 | S32 \<Rightarrow> Int32 | S64 \<Rightarrow> Int64 | SInt \<Rightarrow> IntKind)"
| "kindOf (VUint sz t u) =
     (case sz of U8 \<Rightarrow> Uint8 | U16 \<Rightarrow> Uint16 | U32 \<Rightarrow> Uint32 | U64 \<Rightarrow> Uint64
               | UInt \<Rightarrow> Uint | UPtr \<Rightarrow> Uintptr)"
| "kindOf (VFloat sz t f) = (case sz of F32 \<Rightarrow> Float32 | F64 \<Rightarrow> Float64)"
| "kindOf (VComplex sz t re im) = (case sz of C64 \<Rightarrow> Complex64 | C128 \<Rightarrow> Complex128)"
| "kindOf (VString t s) = String"
| "kindOf (VSlice t xs) = Slice"
| "kindOf (VArray t xs) = Array"
| "kindOf (VMap t es) = Map"
| "kindOf (VStruct t fs) = Struct"
| "kindOf (VInterface t x) = Interface"
| "kindOf (VPtr t a) = Ptr"
| "kindOf (VRef k t a) =
     (case k of RChan \<Rightarrow> Chan | RFunc \<Rightarrow> Func | RUnsafePointer \<Rightarrow> UnsafePointer)"

section \<open>Panics and fuel\<close>

text \<open>
  A call either returns, panics, or does not return at all.  The traversal is bounded
  by fuel; \<open>OutOfFuel\<close> is the result of a run that needs more steps than it was given.
\<close>

datatype error = Panic string | OutOfFuel

definition andThen :: "error + 'a \<Rightarrow> ('a \<Rightarrow> error + 'b) \<Rightarrow> error + 'b" where
  "andThen m f = (case m of Inl e \<Rightarrow> Inl e | Inr x \<Rightarrow> f x)"

text \<open>\<^verbatim>\<open>v.Type()\<close> panics on the zero Value.\<close>

fun typeOf :: "val \<Rightarrow> error + rtype" where
  "typeOf VInvalid = Inl (Panic ''reflect: call of reflect.Value.Type on zero Value'')"
| "typeOf (VBool t b) = Inr t"
| "typeOf (VInt sz t i) = Inr t"
| "typeOf (VUint sz t u) = Inr t"
| "typeOf (VFloat sz t f) = Inr t"
| "typeOf (VComplex sz t re im) = Inr t"
| "typeOf (VString t s) = Inr t"
| "typeOf (VSlice t xs) = Inr t"
| "typeOf (VArray t xs) = Inr t"
| "typeOf (VMap t es) = Inr t"
| "typeOf (VStruct t fs) = Inr t"
| "typeOf (VInterface t x) = Inr t"
| "typeOf (VPtr t a) = Inr t"
| "typeOf (VRef k t a) = Inr t"

text \<open>\<^verbatim>\<open>v.IsNil()\<close>, on the kinds the dumper asks it of.\<close>

fun IsNil :: "val \<Rightarrow> bool" where
  "IsNil (VSlice t xs) = (xs = None)"
| "IsNil (VMap t es) = (es = None)"
| "IsNil (VInterface t x) = (x = None)"
| "IsNil (VPtr t a) = (a = 0)"
| "IsNil (VRef k t a) = (a = 0)"
| "IsNil v = False"

text \<open>
  The elements that \<^verbatim>\<open>v.Len()\<close> counts and \<^verbatim>\<open>v.Index(i)\<close> reads, for the kinds that have
  them; the elements of a string are its bytes.  \<^verbatim>\<open>v.Index(i)\<close> panics out of range, and on
  a value of any other kind.
\<close>

definition uint8Type :: rtype where
  "uint8Type = RType ''uint8'' ''''"

fun elems :: "val \<Rightarrow> val list option" where
  "elems (VSlice t (Some xs)) = Some xs"
| "elems (VSlice t None) = Some []"
| "elems (VArray t xs) = Some xs"
| "elems (VString t s) = Some (map (\<lambda>c. VUint U8 uint8Type (of_nat (of_char c))) s)"
| "elems v = None"

definition Index :: "val \<Rightarrow> nat \<Rightarrow> error + val" where
  "Index v i =
     (case elems v of
        None \<Rightarrow> Inl (Panic ''reflect: call of reflect.Value.Index on a Value without elements'')
      | Some xs \<Rightarrow>
          if i < length xs then Inr (xs ! i)
          else Inl (Panic (if kindOf v = Array then ''reflect: array index out of range''
                           else if kindOf v = String then ''reflect: string index out of range''
                           else ''reflect: slice index out of range'')))"

section \<open>The zero-value detector\<close>

text \<open>\<^verbatim>\<open>unpackValue\<close>: the value inside a non-nil interface, any other value as it is.\<close>

fun unpackValue :: "val \<Rightarrow> val" where
  "unpackValue (VInterface t (Some x)) = x"
| "unpackValue v = v"

text \<open>\<^verbatim>\<open>v.Float() == 0\<close> holds of the two zeros, and of nothing else.\<close>

definition floatIsZero :: "float64 \<Rightarrow> bool" where
  "floatIsZero f = (f = 0 \<or> f = 0x8000000000000000)"

text \<open>
  \<^verbatim>\<open>isZero\<close>.  The loop over the fields of a struct is \<open>isZeroFields\<close>; it returns at the
  first field that is not zero.  The field is unpacked before the recursive call.
\<close>

fun isZero :: "val \<Rightarrow> bool" and isZeroFields :: "(string \<times> val) list \<Rightarrow> bool" where
  "isZero VInvalid = False"
| "isZero (VPtr t a) = (if a = 0 then True else False)"
| "isZero (VBool t b) = (b = False)"
| "isZero (VInt sz t i) = (i = 0)"
| "isZero (VUint sz t u) = (u = 0)"
| "isZero (VFloat sz t f) = floatIsZero f"
| "isZero (VSlice t xs) = (xs = None)"
| "isZero (VArray t xs) = (length xs = 0)"
| "isZero (VString t s) = (s = [])"
| "isZero (VInterface t x) = (x = None)"
| "isZero (VMap t es) = (es = None)"
| "isZero (VStruct t fs) = isZeroFields fs"
| "isZero (VComplex sz t re im) = False"
| "isZero (VRef k t a) = False"
| "isZeroFields [] = True"
| "isZeroFields ((nm, VInterface t (Some x)) # fs) =
     (if \<not> isZero x then False else isZeroFields fs)"
| "isZeroFields ((nm, f) # fs) =
     (if \<not> isZero f then False else isZeroFields fs)"

section \<open>Configuration, session state and collaborators\<close>

text \<open>The fields of \<^verbatim>\<open>ConfigState\<close> that the dumper reads.\<close>

record ConfigState =
  Indent :: string
  MaxDepth :: int
  DisableMethods :: bool
  SortKeys :: bool
  Pkg :: string

text \<open>
  \<^verbatim>\<open>dumpState\<close>.  The writer is the text written so far.  The two Go maps are
  association lists with distinct keys: \<open>map_of\<close> is the lookup, \<open>AList.update\<close> the
  assignment, \<open>AList.delete\<close> the deletion.
\<close>

record dumpState =
  w :: string
  depth :: int
  pointers :: "(uintptr \<times> int) list"
  ignoreNextType :: bool
  ignoreNextIndent :: bool
  importsMap :: "(string \<times> string) list"
  cs :: ConfigState

text \<open>
  What the dumper takes from elsewhere, as parameters: the byte constants and the
  printing, method and sorting helpers of the package, which other files of the package
  define, and the functions of the Go library.  The heap gives the value an address
  points to.
\<close>

record env =
  heap :: "uintptr \<Rightarrow> val"
  invalidAngleBytes :: string
  circularBytes :: string
  maxNewlineBytes :: string
  openBraceNewlineBytes :: string
  closeBraceBytes :: string
  openParenBytes :: string
  closeParenBytes :: string
  commaNewlineBytes :: string
  colonSpaceBytes :: string
  spaceBytes :: string
  amperBytes :: string
  newlineBytes :: string
  printBool :: "bool \<Rightarrow> string"
  printInt :: "64 word \<Rightarrow> nat \<Rightarrow> string"
  printUint :: "64 word \<Rightarrow> nat \<Rightarrow> string"
  printFloat :: "float64 \<Rightarrow> nat \<Rightarrow> string"
  printComplex :: "float64 \<Rightarrow> float64 \<Rightarrow> nat \<Rightarrow> string"
  printHexPtr :: "uintptr \<Rightarrow> string"
  handleMethods :: "ConfigState \<Rightarrow> val \<Rightarrow> string \<times> bool"
  sortValues :: "ConfigState \<Rightarrow> val list \<Rightarrow> val list"
  UnsafeDisabled :: bool
  strconvQuote :: "string \<Rightarrow> string"
  pathBase :: "string \<Rightarrow> string"
  pathDir :: "string \<Rightarrow> string"
  MethodByName :: "val \<Rightarrow> string \<Rightarrow> val"
  Call :: "val \<Rightarrow> error + string"
  floatToUint8 :: "float64 \<Rightarrow> char"

text \<open>\<^verbatim>\<open>d.w.Write(bs)\<close>.\<close>

definition Write :: "dumpState \<Rightarrow> string \<Rightarrow> dumpState" where
  "Write d bs = d\<lparr>w := w d @ bs\<rparr>"

text \<open>\<^verbatim>\<open>indent\<close>.  \<^verbatim>\<open>bytes.Repeat\<close> panics on a negative count.\<close>

definition indent :: "dumpState \<Rightarrow> error + dumpState" where
  "indent d =
     (if ignoreNextIndent d then Inr (d\<lparr>ignoreNextIndent := False\<rparr>)
      else if depth d < 0 then Inl (Panic ''bytes: negative Repeat count'')
      else Inr (Write d (concat (replicate (nat (depth d)) (Indent (cs d))))))"

section \<open>The dependency set\<close>

text \<open>
  \<^verbatim>\<open>addImport\<close> first cuts, in every line of the path, the text up to and including the
  last \<^verbatim>\<open>/vendor/\<close> (the regular expression \<^verbatim>\<open>(?m)^.*\/vendor\/\<close> replaced by nothing).
\<close>

fun afterLast :: "string \<Rightarrow> string \<Rightarrow> string option" where
  "afterLast pat [] = None"
| "afterLast pat (c # s) =
     (case afterLast pat s of
        Some r \<Rightarrow> Some r
      | None \<Rightarrow> if prefix pat (c # s) then Some (drop (length pat) (c # s)) else None)"

definition stripVendorLine :: "string \<Rightarrow> string" where
  "stripVendorLine l = (case afterLast ''/vendor/'' l of Some r \<Rightarrow> r | None \<Rightarrow> l)"

fun linesOf :: "string \<Rightarrow> string list" where
  "linesOf [] = [[]]"
| "linesOf (c # s) =
     (if c = CHR 0x0A then [] # linesOf s
      else (case linesOf s of l # ls \<Rightarrow> (c # l) # ls | [] \<Rightarrow> [[c]]))"

fun joinLines :: "string list \<Rightarrow> string" where
  "joinLines [] = []"
| "joinLines [l] = l"
| "joinLines (l # ls) = l @ [CHR 0x0A] @ joinLines ls"

definition stripVendor :: "string \<Rightarrow> string" where
  "stripVendor p = joinLines (map stripVendorLine (linesOf p))"

definition addImport :: "dumpState \<Rightarrow> string \<Rightarrow> string \<Rightarrow> dumpState" where
  "addImport d pkgPath alias =
     (let pkgPath = stripVendor pkgPath in
      if map_of (importsMap d) pkgPath = None
      then d\<lparr>importsMap := AList.update pkgPath alias (importsMap d)\<rparr>
      else d)"

section \<open>The type namer\<close>

text \<open>\<^verbatim>\<open>strings.Replace(s, old, new, 1)\<close>.\<close>

fun replaceFirst :: "string \<Rightarrow> string \<Rightarrow> string \<Rightarrow> string" where
  "replaceFirst old new [] = (if old = [] then new else [])"
| "replaceFirst old new (c # s) =
     (if prefix old (c # s) then new @ drop (length old) (c # s)
      else c # replaceFirst old new s)"

text \<open>\<^verbatim>\<open>k8sType(d, v)\<close>: the name to print, and the state with the imports it records.\<close>

definition k8sType :: "env \<Rightarrow> dumpState \<Rightarrow> val \<Rightarrow> error + (string \<times> dumpState)" where
  "k8sType e d v =
     andThen (typeOf v) (\<lambda>t.
       let typeStr = typeString t;
           (typeStr, d) =
             (if prefix ''v1.'' typeStr
              then (let k8sapi = pathBase e (pathDir e (typePkgPath t))
                    in (k8sapi @ typeStr, addImport d (typePkgPath t) (k8sapi @ ''v1'')))
              else (typeStr, d))
       in andThen
            (if prefix ''[]v1.'' typeStr
             then andThen (Index v 0) (\<lambda>x. andThen (typeOf x) (\<lambda>xt.
                    let k8sapi = pathBase e (pathDir e (typePkgPath xt));
                        d = addImport d (typePkgPath xt) (k8sapi @ ''v1'')
                    in Inr (replaceFirst ''[]v1.'' (''[]'' @ k8sapi @ ''v1.'') typeStr, d)))
             else Inr (typeStr, d))
            (\<lambda>(typeStr, d). Inr (typeStr, addImport d (typePkgPath t) '''')))"

text \<open>\<^verbatim>\<open>Addressable\<close>: whether the literal of the value can be prefixed with \<^verbatim>\<open>&\<close>.\<close>

definition Addressable :: "val \<Rightarrow> error + bool" where
  "Addressable v =
     andThen (typeOf v) (\<lambda>t.
       Inr (kindOf v \<in> set [Array, Chan, Func, Interface, Map, Ptr, Slice, Struct, UnsafePointer]))"

section \<open>The cycle tracker and the pointer path\<close>

text \<open>
  The first loop of \<^verbatim>\<open>dumpPtr\<close>: it ranges over \<^verbatim>\<open>d.pointers\<close> and deletes the keys whose
  depth is at or beyond the current one.
\<close>

definition purgePointers :: "int \<Rightarrow> (uintptr \<times> int) list \<Rightarrow> (uintptr \<times> int) list" where
  "purgePointers dep ps =
     fold (\<lambda>(k, pd) m. if pd \<ge> dep then AList.delete k m else m) ps ps"

text \<open>
  The second loop follows the chain of pointers and interfaces.  Its variables, and
  \<^verbatim>\<open>d.pointers\<close>, which nothing else touches while it runs, are the loop state.
\<close>

record chainState =
  nilFound :: bool
  cycleFound :: bool
  indirects :: nat
  ve :: val
  pointerChain :: "uintptr list"
  seen :: "(uintptr \<times> int) list"

text \<open>One turn of the loop: \<open>Inl\<close> when the loop is left, \<open>Inr\<close> when it goes round again.\<close>

definition chainStep :: "(uintptr \<Rightarrow> val) \<Rightarrow> int \<Rightarrow> chainState \<Rightarrow> chainState + chainState" where
  "chainStep h dep c =
     (case ve c of
        VPtr t addr \<Rightarrow>
          if addr = 0 then Inl (c\<lparr>nilFound := True\<rparr>)
          else
            (let c = c\<lparr>indirects := indirects c + 1, pointerChain := pointerChain c @ [addr]\<rparr>
             in if (case map_of (seen c) addr of Some pd \<Rightarrow> pd < dep | None \<Rightarrow> False)
                then Inl (c\<lparr>cycleFound := True, indirects := indirects c - 1\<rparr>)
                else
                  (let c = c\<lparr>seen := AList.update addr dep (seen c), ve := h addr\<rparr>
                   in if kindOf (ve c) = Interface
                      then if IsNil (ve c) then Inl (c\<lparr>nilFound := True\<rparr>)
                           else Inr (c\<lparr>ve := unpackValue (ve c)\<rparr>)
                      else Inr c))
      | _ \<Rightarrow> Inl c)"

primrec chainLoop :: "nat \<Rightarrow> (uintptr \<Rightarrow> val) \<Rightarrow> int \<Rightarrow> chainState \<Rightarrow> chainState option" where
  "chainLoop 0 h dep c = None"
| "chainLoop (Suc n) h dep c =
     (case chainStep h dep c of Inl fin \<Rightarrow> Some fin | Inr nxt \<Rightarrow> chainLoop n h dep nxt)"

definition chainStart :: "dumpState \<Rightarrow> val \<Rightarrow> chainState" where
  "chainStart d v =
     \<lparr>nilFound = False, cycleFound = False, indirects = 0, ve = v, pointerChain = [],
      seen = pointers d\<rparr>"

text \<open>
  \<^verbatim>\<open>dumpPtr\<close>, after its two loops: the type information (the copying function literal
  for a value that cannot be prefixed with \<^verbatim>\<open>&\<close>; else the prefix of a top-level
  declaration at depth 0, the address-of prefixes and the type name), then the
  dereferenced value.  \<open>rec\<close> is \<^verbatim>\<open>d.dump\<close>, the recursive call.
\<close>

definition ptrTypeInfo :: "env \<Rightarrow> dumpState \<Rightarrow> chainState \<Rightarrow> bool \<Rightarrow> error + dumpState" where
  "ptrTypeInfo e d c addressable =
     (if \<not> addressable
      then andThen (typeOf (ve c)) (\<lambda>t.
             Inr (Write d (''func(x '' @ typeString t @ '') *'' @ typeString t
                           @ '' {return &x }('')))
      else
        (let d = (if depth d = 0 then Write d ''var _ = '' else d);
             d = Write d (concat (replicate (indirects c) (amperBytes e)))
         in andThen (k8sType e d (ve c)) (\<lambda>(name, d). Inr (Write d name))))"

definition ptrValue ::
  "(dumpState \<Rightarrow> val \<Rightarrow> error + dumpState) \<Rightarrow> env \<Rightarrow> dumpState \<Rightarrow> chainState \<Rightarrow> error + dumpState" where
  "ptrValue rec e d c =
     (if cycleFound c then Inr (Write d (circularBytes e))
      else rec (d\<lparr>ignoreNextType := True\<rparr>) (ve c))"

text \<open>\<^verbatim>\<open>dumpPtr\<close>; \<open>n\<close> bounds the turns of the chain loop.\<close>

definition dumpPtr ::
  "nat \<Rightarrow> (dumpState \<Rightarrow> val \<Rightarrow> error + dumpState) \<Rightarrow> env \<Rightarrow> dumpState \<Rightarrow> val \<Rightarrow> error + dumpState" where
  "dumpPtr n rec e d v =
     (case chainLoop n (heap e) (depth d)
             (chainStart (d\<lparr>pointers := purgePointers (depth d) (pointers d)\<rparr>) v) of
        None \<Rightarrow> Inl OutOfFuel
      | Some c \<Rightarrow>
          (let d = d\<lparr>pointers := seen c\<rparr> in
           if nilFound c then Inr (Write d ''nil'')
           else
             andThen (Addressable (ve c)) (\<lambda>addressable.
             andThen (ptrTypeInfo e d c addressable) (\<lambda>d.
             andThen (ptrValue rec e d c) (\<lambda>d.
               Inr (if \<not> addressable then Write d (closeParenBytes e) else d))))))"

section \<open>Slices and arrays\<close>

text \<open>
  The three regular expressions of the cgo character types have the shape
  \<^verbatim>\<open>^.*\._Ctype_NAME$\<close>: the text ends with the name, after a dot, and nothing before it
  is a newline.
\<close>

definition matchCgo :: "string \<Rightarrow> string \<Rightarrow> bool" where
  "matchCgo nm s =
     (suffix (''._Ctype_'' @ nm) s
      \<and> CHR 0x0A \<notin> set (take (length s - length (''._Ctype_'' @ nm)) s))"

text \<open>The byte of an element: what \<^verbatim>\<open>uint8(vv.Convert(uint8Type).Uint())\<close> gives.\<close>

fun toUint8 :: "env \<Rightarrow> val \<Rightarrow> error + char" where
  "toUint8 e (VInt sz t i) = Inr (char_of (unat i))"
| "toUint8 e (VUint sz t u) = Inr (char_of (unat u))"
| "toUint8 e (VFloat sz t f) = Inr (floatToUint8 e f)"
| "toUint8 e v = Inl (Panic ''reflect.Value.Convert: value cannot be converted to uint8'')"

fun toBytes :: "env \<Rightarrow> val list \<Rightarrow> error + string" where
  "toBytes e [] = Inr []"
| "toBytes e (x # xs) =
     andThen (toUint8 e x) (\<lambda>b. andThen (toBytes e xs) (\<lambda>bs. Inr (b # bs)))"

text \<open>\<^verbatim>\<open>vt.ConvertibleTo(uint8Type)\<close>: the numeric kinds convert to uint8.\<close>

fun convertibleToUint8 :: "val \<Rightarrow> bool" where
  "convertibleToUint8 (VInt sz t i) = True"
| "convertibleToUint8 (VUint sz t u) = True"
| "convertibleToUint8 (VFloat sz t f) = True"
| "convertibleToUint8 v = False"

text \<open>
  Whether \<^verbatim>\<open>vs.Slice(0, numEntries).Interface()\<close> asserts to \<^verbatim>\<open>[]uint8\<close>: the slice type is
  \<^verbatim>\<open>[]uint8\<close> itself, or the value is an array whose element type is \<^verbatim>\<open>uint8\<close>.  The flags
  of a Value (\<^verbatim>\<open>CanAddr\<close>, \<^verbatim>\<open>CanInterface\<close>) are not part of the model, and
  \<^verbatim>\<open>unsafeReflectValue\<close>, which changes nothing else, is left out.
\<close>

fun assertsUint8Slice :: "val \<Rightarrow> val \<Rightarrow> bool" where
  "assertsUint8Slice (VSlice t xs) x0 = (t = RType ''[]uint8'' '''')"
| "assertsUint8Slice (VArray t xs) x0 = (typeOf x0 = Inr uint8Type)"
| "assertsUint8Slice v x0 = False"

text \<open>
  The first half of \<^verbatim>\<open>dumpSlice\<close>: the buffer to print as one raw literal, if the
  elements are bytes (\<^verbatim>\<open>doHexDump\<close>), over the elements \<open>xs\<close> of \<open>v\<close>.
\<close>

definition hexBuffer :: "env \<Rightarrow> val \<Rightarrow> val list \<Rightarrow> error + string option" where
  "hexBuffer e v xs =
     (case xs of
        [] \<Rightarrow> Inr None
      | x0 # _ \<Rightarrow>
          andThen (typeOf x0) (\<lambda>vt.
            let vts = typeString vt;
                convertAndCopy =
                  (if convertibleToUint8 x0
                   then andThen (toBytes e xs) (\<lambda>buf. Inr (Some buf))
                   else Inr None)
            in if matchCgo ''char'' vts \<or> matchCgo ''unsignedchar'' vts \<or> matchCgo ''uint8_t'' vts
               then convertAndCopy
               else if kindOf x0 = Uint8
               then (if \<not> UnsafeDisabled e \<and> assertsUint8Slice v x0
                     then andThen (toBytes e xs) (\<lambda>buf. Inr (Some buf))
                     else convertAndCopy)
               else Inr None))"

text \<open>\<^verbatim>\<open>strings.TrimRight(s, cutset)\<close>.\<close>

definition TrimRight :: "string \<Rightarrow> string \<Rightarrow> string" where
  "TrimRight s cutset = rev (dropWhile (\<lambda>c. c \<in> set cutset) (rev s))"

text \<open>The last loop of \<^verbatim>\<open>dumpSlice\<close>: every element, unpacked, then a separator.\<close>

fun dumpElems ::
  "(dumpState \<Rightarrow> val \<Rightarrow> error + dumpState) \<Rightarrow> env \<Rightarrow> val list \<Rightarrow> dumpState \<Rightarrow> error + dumpState" where
  "dumpElems rec e [] d = Inr d"
| "dumpElems rec e (x # xs) d =
     andThen (rec d (unpackValue x)) (\<lambda>d.
       dumpElems rec e xs (Write d (commaNewlineBytes e)))"

definition dumpSlice ::
  "(dumpState \<Rightarrow> val \<Rightarrow> error + dumpState) \<Rightarrow> env \<Rightarrow> dumpState \<Rightarrow> val \<Rightarrow> error + dumpState" where
  "dumpSlice rec e d v =
     (case elems v of
        None \<Rightarrow> Inl (Panic ''reflect: call of reflect.Value.Len on a Value without length'')
      | Some xs \<Rightarrow>
          andThen (hexBuffer e v xs) (\<lambda>hex.
            case hex of
              Some buf \<Rightarrow>
                Inr (Write d (TrimRight ([CHR 0x60] @ buf @ [CHR 0x60]) (Indent (cs d))))
            | None \<Rightarrow> dumpElems rec e xs d))"

section \<open>The value dumper\<close>

text \<open>
  The parts of \<^verbatim>\<open>dump\<close>, in the order of the source.  First the type information
  (\<^verbatim>\<open>if !d.ignoreNextType { ... }\<close>): it returns the flag \<^verbatim>\<open>byteString\<close> with the state.
\<close>

definition quantityLiteral :: "env \<Rightarrow> dumpState \<Rightarrow> val \<Rightarrow> error + (bool \<times> dumpState)" where
  "quantityLiteral e d v =
     (let d = addImport d ''k8s.io/apimachinery/pkg/api/resource'' '''';
          strfunc = MethodByName e v ''MarshalJSON''
      in if \<not> isZero strfunc
         then andThen (Call e strfunc) (\<lambda>octets.
                Inr (True, Write d (''resource.MustParse('' @ octets @ '')'')))
         else Inr (False, d))"

definition printTypeInfo :: "env \<Rightarrow> dumpState \<Rightarrow> val \<Rightarrow> error + (bool \<times> dumpState)" where
  "printTypeInfo e d v =
     (if \<not> ignoreNextType d then
        andThen (indent d) (\<lambda>d.
        andThen
          (if kindOf v = Slice \<or> kindOf v = Array then
             andThen (Index v 0) (\<lambda>x0.
               if kindOf x0 = Uint8 then Inr (True, Write d ''[]byte'')
               else andThen (k8sType e d v) (\<lambda>(name, d). Inr (False, Write d name)))
           else if kindOf v = Map then
             andThen (k8sType e d v) (\<lambda>(name, d). Inr (False, Write d name))
           else if kindOf v = Interface \<or> kindOf v = Struct then
             andThen (typeOf v) (\<lambda>t.
               if typeString t = ''resource.Quantity'' \<and> \<not> isZero v \<and> kindOf v \<noteq> Invalid
               then quantityLiteral e d v
               else andThen (k8sType e d v) (\<lambda>(name, d). Inr (False, Write d name)))
           else Inr (False, d))
          (\<lambda>(byteString, d).
             Inr (byteString, if \<not> byteString then Write d (spaceBytes e) else d)))
      else Inr (False, d))"

text \<open>
  The call of the Stringer and error methods: what the handler wrote, and whether it
  handled the value.
\<close>

definition callMethods :: "env \<Rightarrow> dumpState \<Rightarrow> val \<Rightarrow> bool \<times> dumpState" where
  "callMethods e d v =
     (if \<not> DisableMethods (cs d) \<and> kindOf v \<noteq> Invalid \<and> kindOf v \<noteq> Interface
      then (let (out, handled) = handleMethods e (cs d) v in (handled, Write d out))
      else (False, d))"

text \<open>
  The string case.  The regular expression \<^verbatim>\<open>(?m)(\x60.*?\x60)\<close> matches a backtick, the
  shortest run of characters other than a newline, and a backtick; each match \<open>m\<close> is
  replaced by backtick, plus, quote, \<open>m\<close>, quote, plus, backtick.  \<open>spliceOpen\<close> reads on
  after a backtick, holding the characters read since.
\<close>

fun spliceBackticks :: "string \<Rightarrow> string" and spliceOpen :: "string \<Rightarrow> string \<Rightarrow> string" where
  "spliceBackticks [] = []"
| "spliceBackticks (c # s) =
     (if c = CHR 0x60 then spliceOpen [] s else c # spliceBackticks s)"
| "spliceOpen held [] = CHR 0x60 # held"
| "spliceOpen held (c # s) =
     (if c = CHR 0x60
      then [CHR 0x60, CHR ''+'', CHR 0x22, CHR 0x60] @ held @ [CHR 0x60, CHR 0x22, CHR ''+'', CHR 0x60]
           @ spliceBackticks s
      else if c = CHR 0x0A then CHR 0x60 # held @ c # spliceBackticks s
      else spliceOpen (held @ [c]) s)"

definition dumpString :: "env \<Rightarrow> dumpState \<Rightarrow> string \<Rightarrow> dumpState" where
  "dumpString e d str =
     (if CHR 0x0A \<in> set str
      then Write d ([CHR 0x60] @ spliceBackticks str @ [CHR 0x60])
      else Write d (strconvQuote e str))"

text \<open>The truncation test, after \<^verbatim>\<open>d.depth++\<close>.\<close>

definition maxDepthReached :: "dumpState \<Rightarrow> bool" where
  "maxDepthReached d = (MaxDepth (cs d) \<noteq> 0 \<and> depth d > MaxDepth (cs d))"

text \<open>The array case, which the slice case falls through to when the slice is not nil.\<close>

definition dumpArray ::
  "(dumpState \<Rightarrow> val \<Rightarrow> error + dumpState) \<Rightarrow> env \<Rightarrow> dumpState \<Rightarrow> val \<Rightarrow> bool \<Rightarrow> error + dumpState" where
  "dumpArray rec e d v byteString =
     (let openBytes = (if byteString then openParenBytes e else openBraceNewlineBytes e);
          closeBytes = (if byteString then closeParenBytes e else closeBraceBytes e);
          d = Write d openBytes;
          d = d\<lparr>depth := depth d + 1\<rparr>
      in andThen
           (if maxDepthReached d
            then andThen (indent d) (\<lambda>d. Inr (Write d (maxNewlineBytes e)))
            else dumpSlice rec e d v)
           (\<lambda>d. let d = d\<lparr>depth := depth d - 1\<rparr>
                 in andThen (if \<not> byteString then indent d else Inr d)
                      (\<lambda>d. Inr (Write d closeBytes))))"

text \<open>The map case: \<^verbatim>\<open>MapKeys\<close>, \<^verbatim>\<open>MapIndex\<close> and the loop over the keys.\<close>

definition MapIndex :: "(val \<times> val) list \<Rightarrow> val \<Rightarrow> val" where
  "MapIndex es key = (case map_of es key of Some x \<Rightarrow> x | None \<Rightarrow> VInvalid)"

fun dumpKeys ::
  "(dumpState \<Rightarrow> val \<Rightarrow> error + dumpState) \<Rightarrow> env \<Rightarrow> (val \<times> val) list \<Rightarrow> val list \<Rightarrow> dumpState
   \<Rightarrow> error + dumpState" where
  "dumpKeys rec e es [] d = Inr d"
| "dumpKeys rec e es (key # keys) d =
     andThen (rec d (unpackValue key)) (\<lambda>d.
       let d = Write d (colonSpaceBytes e);
           d = d\<lparr>ignoreNextIndent := True\<rparr>
       in andThen (rec d (unpackValue (MapIndex es key))) (\<lambda>d.
            dumpKeys rec e es keys (Write d (commaNewlineBytes e))))"

definition dumpMap ::
  "(dumpState \<Rightarrow> val \<Rightarrow> error + dumpState) \<Rightarrow> env \<Rightarrow> dumpState \<Rightarrow> (val \<times> val) list option
   \<Rightarrow> error + dumpState" where
  "dumpMap rec e d m =
     (case m of
        None \<Rightarrow> Inr (Write d ''nil'')
      | Some es \<Rightarrow>
          (let d = Write d (openBraceNewlineBytes e);
               d = d\<lparr>depth := depth d + 1\<rparr>
           in andThen
                (if maxDepthReached d
                 then andThen (indent d) (\<lambda>d. Inr (Write d (maxNewlineBytes e)))
                 else
                   (let keys = map fst es;
                        keys = (if SortKeys (cs d) then sortValues e (cs d) keys else keys)
                    in dumpKeys rec e es keys d))
                (\<lambda>d. let d = d\<lparr>depth := depth d - 1\<rparr>
                      in andThen (indent d) (\<lambda>d. Inr (Write d (closeBraceBytes e))))))"

text \<open>The struct case: the loop over the fields, in the order of their declaration.\<close>

fun dumpFields ::
  "(dumpState \<Rightarrow> val \<Rightarrow> error + dumpState) \<Rightarrow> env \<Rightarrow> (string \<times> val) list \<Rightarrow> dumpState
   \<Rightarrow> error + dumpState" where
  "dumpFields rec e [] d = Inr d"
| "dumpFields rec e ((name, f) # fs) d =
     (if isZero f then dumpFields rec e fs d
      else
        andThen (indent d) (\<lambda>d.
          let d = Write d name;
              d = Write d (colonSpaceBytes e);
              d = d\<lparr>ignoreNextIndent := True\<rparr>
          in andThen (rec d (unpackValue f)) (\<lambda>d.
               dumpFields rec e fs (Write d (commaNewlineBytes e)))))"

definition dumpStruct ::
  "(dumpState \<Rightarrow> val \<Rightarrow> error + dumpState) \<Rightarrow> env \<Rightarrow> dumpState \<Rightarrow> rtype \<Rightarrow> (string \<times> val) list
   \<Rightarrow> error + dumpState" where
  "dumpStruct rec e d t fs =
     (if typeString t \<noteq> ''resource.Quantity'' then
        (let d = Write d (openBraceNewlineBytes e);
             d = d\<lparr>depth := depth d + 1\<rparr>
         in andThen
              (if maxDepthReached d
               then andThen (indent d) (\<lambda>d. Inr (Write d (maxNewlineBytes e)))
               else dumpFields rec e fs d)
              (\<lambda>d. let d = d\<lparr>depth := depth d - 1\<rparr>
                    in andThen (indent d) (\<lambda>d. Inr (Write d (closeBraceBytes e)))))
      else Inr d)"

text \<open>
  The switch on the kind.  Every kind of Go has its case, so the default case of the
  source is not reached.
\<close>

fun dumpKind ::
  "(dumpState \<Rightarrow> val \<Rightarrow> error + dumpState) \<Rightarrow> env \<Rightarrow> dumpState \<Rightarrow> bool \<Rightarrow> val \<Rightarrow> error + dumpState" where
  "dumpKind rec e d byteString VInvalid = Inr d"
| "dumpKind rec e d byteString (VBool t b) = Inr (Write d (printBool e b))"
| "dumpKind rec e d byteString (VInt sz t i) = Inr (Write d (printInt e i 10))"
| "dumpKind rec e d byteString (VUint sz t u) =
     (if sz = UPtr then Inr (Write d (printHexPtr e u)) else Inr (Write d (printUint e u 10)))"
| "dumpKind rec e d byteString (VFloat sz t f) =
     Inr (Write d (printFloat e f (case sz of F32 \<Rightarrow> 32 | F64 \<Rightarrow> 64)))"
| "dumpKind rec e d byteString (VComplex sz t re im) =
     Inr (Write d (printComplex e re im (case sz of C64 \<Rightarrow> 32 | C128 \<Rightarrow> 64)))"
| "dumpKind rec e d byteString (VSlice t xs) =
     (if xs = None then Inr (Write d ''nil'')
      else dumpArray rec e d (VSlice t xs) byteString)"
| "dumpKind rec e d byteString (VArray t xs) = dumpArray rec e d (VArray t xs) byteString"
| "dumpKind rec e d byteString (VString t s) = Inr (dumpString e d s)"
| "dumpKind rec e d byteString (VInterface t x) =
     (if x = None then Inr (Write d ''nil'') else Inr d)"
| "dumpKind rec e d byteString (VPtr t a) = Inr d"
| "dumpKind rec e d byteString (VMap t m) = dumpMap rec e d m"
| "dumpKind rec e d byteString (VStruct t fs) = dumpStruct rec e d t fs"
| "dumpKind rec e d byteString (VRef k t a) = Inr (Write d (printHexPtr e a))"

text \<open>
  The body of \<^verbatim>\<open>dump\<close>, with \<open>rec\<close> for its recursive calls, and \<^verbatim>\<open>dump\<close> itself.  The
  fuel bounds the depth of the recursion and the turns of the chain loop.
\<close>

definition dumpBody ::
  "(dumpState \<Rightarrow> val \<Rightarrow> error + dumpState) \<Rightarrow> nat \<Rightarrow> env \<Rightarrow> dumpState \<Rightarrow> val \<Rightarrow> error + dumpState" where
  "dumpBody rec n e d v =
     (if kindOf v = Invalid then Inr (Write d (invalidAngleBytes e))
      else if kindOf v = Ptr then andThen (indent d) (\<lambda>d. dumpPtr n rec e d v)
      else
        andThen (printTypeInfo e d v) (\<lambda>(byteString, d).
          let d = d\<lparr>ignoreNextType := False\<rparr>;
              (handled, d) = callMethods e d v
          in if handled then Inr d
             else dumpKind rec e d byteString v))"

primrec dump :: "nat \<Rightarrow> env \<Rightarrow> dumpState \<Rightarrow> val \<Rightarrow> error + dumpState" where
  "dump 0 e d v = Inl OutOfFuel"
| "dump (Suc n) e d v = dumpBody (dump n e) n e d v"

section \<open>The session driver\<close>

text \<open>
  \<^verbatim>\<open>fdump\<close>.  An argument is \<open>None\<close> when it is the nil interface.  The loop over the
  arguments collects the imports and the text of every value; the imports of a value
  are assigned into the collected ones key by key.
\<close>

definition newDumpState :: "ConfigState \<Rightarrow> dumpState" where
  "newDumpState c =
     \<lparr>w = [], depth = 0, pointers = [], ignoreNextType = False, ignoreNextIndent = False,
      importsMap = [], cs = c\<rparr>"






section \<open>The depth counter, observed\<close>




section \<open>An environment to run examples in\<close>

text \<open>
  The byte constants as the upstream package defines them, no type with a Stringer or
  error method, keys sorted by their unsigned value, strings without characters to
  escape quoted as they are, and \<^verbatim>\<open>path.Dir\<close> and \<^verbatim>\<open>path.Base\<close> on clean relative paths of
  two elements or more.  The printers of numbers and addresses are stand-ins that print
  a fixed word.  The heap is empty; an example with pointers sets its own.
\<close>

definition exampleBase :: "string \<Rightarrow> string" where
  "exampleBase p = rev (takeWhile (\<lambda>c. c \<noteq> CHR ''/'') (rev p))"

definition exampleDir :: "string \<Rightarrow> string" where
  "exampleDir p = rev (drop 1 (dropWhile (\<lambda>c. c \<noteq> CHR ''/'') (rev p)))"

definition exampleKey :: "val \<Rightarrow> nat" where
  "exampleKey v = (case v of VUint sz t u \<Rightarrow> unat u | _ \<Rightarrow> 0)"

definition exampleEnv :: env where
  "exampleEnv =
     \<lparr>heap = (\<lambda>a. VInvalid),
      invalidAngleBytes = ''<invalid>'',
      circularBytes = ''<already shown>'',
      maxNewlineBytes = ''<max depth reached>'' @ [CHR 0x0A],
      openBraceNewlineBytes = ''{'' @ [CHR 0x0A],
      closeBraceBytes = ''}'',
      openParenBytes = ''('',
      closeParenBytes = '')'',
      commaNewlineBytes = '','' @ [CHR 0x0A],
      colonSpaceBytes = '': '',
      spaceBytes = '' '',
      amperBytes = ''&'',
      newlineBytes = [CHR 0x0A],
      printBool = (\<lambda>b. if b then ''true'' else ''false''),
      printInt = (\<lambda>i base. ''<int>''),
      printUint = (\<lambda>u base. ''<uint>''),
      printFloat = (\<lambda>f bits. ''<float>''),
      printComplex = (\<lambda>re im bits. ''<complex>''),
      printHexPtr = (\<lambda>a. ''<address>''),
      handleMethods = (\<lambda>c v. ([], False)),
      sortValues = (\<lambda>c ks. sort_key exampleKey ks),
      UnsafeDisabled = False,
      strconvQuote = (\<lambda>s. [CHR 0x22] @ s @ [CHR 0x22]),
      pathBase = exampleBase,
      pathDir = exampleDir,
      MethodByName = (\<lambda>v name. VInvalid),
      Call = (\<lambda>f. Inl (Panic ''reflect: call of reflect.Value.Call on zero Value'')),
      floatToUint8 = (\<lambda>f. CHR 0x00)\<rparr>"

definition exampleConfig :: ConfigState where
  "exampleConfig =
     \<lparr>Indent = '' '', MaxDepth = 0, DisableMethods = False, SortKeys = False, Pkg = []\<rparr>"

text \<open>A struct of three fields, the last of them zero.\<close>

definition exampleStruct :: val where
  "exampleStruct =
     VStruct (RType ''main.T'' ''main'')
       [(''Name'', VString (RType ''string'' []) ''x''),
        (''Ok'', VBool (RType ''bool'' []) True),
        (''Off'', VBool (RType ''bool'' []) False)]"


definition exampleNodePtr :: val where
  "exampleNodePtr = VPtr (RType ''*main.Node'' []) 1"

section \<open>Properties of callbacks and of the chain loop\<close>

text \<open>A callback only appends to the text written.\<close>

definition appendsOnly :: "(dumpState \<Rightarrow> val \<Rightarrow> error + dumpState) \<Rightarrow> bool" where
  "appendsOnly rec = (\<forall>d v d'. rec d v = Inr d' \<longrightarrow> prefix (w d) (w d'))"


text \<open>A heap whose address 1 holds the example struct, and a pointer to it.\<close>

definition exampleHeapEnv :: env where
  "exampleHeapEnv = exampleEnv\<lparr>heap := (\<lambda>a. if a = 1 then exampleStruct else VInvalid)\<rparr>"

definition exampleStructPtr :: val where
  "exampleStructPtr = VPtr (RType ''*main.T'' []) 1"

section \<open>The struct block, in the words of the specification\<close>









text \<open>The recorded pointers of a state have distinct keys, as the keys of a Go map have.\<close>

definition distinctPointers :: "dumpState \<Rightarrow> bool" where
  "distinctPointers d = distinct (map fst (pointers d))"

definition keepsDistinct :: "(dumpState \<Rightarrow> val \<Rightarrow> error + dumpState) \<Rightarrow> bool" where
  "keepsDistinct rec = (\<forall>d v d'. distinctPointers d \<and> rec d v = Inr d' \<longrightarrow> distinctPointers d')"

text \<open>
  Two nodes that point to each other (\<^verbatim>\<open>a.Next = &b; b.Next = &a\<close>), at the addresses 1
  and 2, and the pointer to the first.
\<close>

definition exampleNode :: "uintptr \<Rightarrow> val" where
  "exampleNode next =
     VStruct (RType ''main.Node'' ''main'') [(''Next'', VPtr (RType ''*main.Node'' []) next)]"

definition exampleCycleEnv :: env where
  "exampleCycleEnv =
     exampleEnv\<lparr>heap := (\<lambda>a. if a = 1 then exampleNode 2
                             else if a = 2 then exampleNode 1 else VInvalid)\<rparr>"

section \<open>More fuel\<close>

text \<open>
  A result is below another when it is the end of the fuel or the two are the same; a
  callback is below another when its results are, at every state and value.
\<close>

definition below :: "error + 'a \<Rightarrow> error + 'a \<Rightarrow> bool" where
  "below r1 r2 = (r1 = Inl OutOfFuel \<or> r1 = r2)"

definition recBelow ::
  "(dumpState \<Rightarrow> val \<Rightarrow> error + dumpState) \<Rightarrow> (dumpState \<Rightarrow> val \<Rightarrow> error + dumpState) \<Rightarrow> bool" where
  "recBelow rec1 rec2 = (\<forall>d v. below (rec1 d v) (rec2 d v))"

section \<open>Results and sequencing\<close>

lemma andThen_Inr [simp]: "andThen (Inr x) f = f x"
  by (simp add: andThen_def)

lemma andThen_Inl [simp]: "andThen (Inl err) f = Inl err"
  by (simp add: andThen_def)

lemma andThen_eq_Inr: "andThen m f = Inr y \<longleftrightarrow> (\<exists>x. m = Inr x \<and> f x = Inr y)"
  by (cases m) simp_all

section \<open>The zero-value detector: what it reports\<close>

lemma isZeroFields_Cons:
  "isZeroFields ((nm, f) # fs) = (if \<not> isZero (unpackValue f) then False else isZeroFields fs)"
  by (cases "(nm, f) # fs" rule: isZeroFields.cases) auto

lemma isZeroFields_all: "isZeroFields fs = list_all (\<lambda>f. isZero (unpackValue (snd f))) fs"
proof (induction fs)
  case Nil
  show ?case by simp
next
  case (Cons p fs)
  obtain nm f where p: "p = (nm, f)" by (cases p)
  show ?case unfolding p by (simp add: isZeroFields_Cons Cons.IH del: isZeroFields.simps)
qed

text \<open>
  Claim C4, as stated, gives non-zero for every shape it does not list.  The pointer is
  such a shape, and \<^verbatim>\<open>isZero\<close> reports a nil pointer zero.
\<close>

theorem isZero_nil_pointer:
  "kindOf (VPtr (RType ''*int'' []) 0) = Ptr \<and> isZero (VPtr (RType ''*int'' []) 0) = True"
  by simp

text \<open>
  Claim C4, amended: \<^verbatim>\<open>isZero\<close> is false on the invalid value; true on the boolean false, on
  a signed or unsigned integer (uintptr included) equal to 0, on a float equal to 0 (either
  zero), on the empty string, on a nil slice, map or interface, and on an array of length
  zero; on a struct, true exactly when every field, unpacked, is zero in turn; on a
  pointer, true exactly when the pointer is nil, whatever it points to; and false on
  complex numbers, channels, functions and unsafe pointers.
\<close>

theorem isZero_by_shape:
  "isZero VInvalid = False
   \<and> isZero (VBool t b) = (b = False)
   \<and> isZero (VInt isz t i) = (i = 0)
   \<and> isZero (VUint usz t u) = (u = 0)
   \<and> isZero (VFloat fsz t f) = (f = 0 \<or> f = 0x8000000000000000)
   \<and> isZero (VString t s) = (s = [])
   \<and> isZero (VSlice t xs) = (xs = None)
   \<and> isZero (VMap t es) = (es = None)
   \<and> isZero (VInterface t x) = (x = None)
   \<and> isZero (VArray t ys) = (length ys = 0)
   \<and> isZero (VStruct t fs) = list_all (\<lambda>f. isZero (unpackValue (snd f))) fs
   \<and> isZero (VPtr t a) = (a = 0)
   \<and> isZero (VComplex csz t re im) = False
   \<and> isZero (VRef k t a) = False"
  by (simp add: isZeroFields_all floatIsZero_def)

section \<open>The depth counter\<close>
lemma depth_Write [simp]: "depth (Write d s) = depth d"
  by (simp add: Write_def)

lemma cs_Write [simp]: "cs (Write d s) = cs d"
  by (simp add: Write_def)

lemma indent_depth: "indent d = Inr d' \<Longrightarrow> depth d' = depth d"
  by (auto simp: indent_def split: if_splits)

lemma depth_addImport [simp]: "depth (addImport d p a) = depth d"
  by (simp add: addImport_def Let_def)













lemma depth_dumpString [simp]: "depth (dumpString e d s) = depth d"
  by (simp add: dumpString_def)






















lemmas example_unfold =
  exampleEnv_def exampleConfig_def newDumpState_def dumpBody_def printTypeInfo_def
  k8sType_def callMethods_def dumpStruct_def dumpMap_def dumpArray_def dumpSlice_def
  hexBuffer_def indent_def Write_def addImport_def stripVendor_def stripVendorLine_def
  maxDepthReached_def dumpString_def Let_def Index_def


section \<open>Slices without elements\<close>

text \<open>
  Claim C1, at the inputs where the code departs from it.  A top-level slice that is nil
  or empty, and an empty array, make \<^verbatim>\<open>dump\<close> panic: the type information is printed first,
  and it reads element 0 (\<^verbatim>\<open>v.Index(0)\<close>) before the switch on the kind tests the slice for
  nil.  The switch itself, reached with the type already printed, writes \<^verbatim>\<open>nil\<close> for a nil
  slice (the last conjunct).
\<close>

theorem dump_empty_slice_panics:
  "dump (Suc n) e (newDumpState c) (VSlice t None) = Inl (Panic ''reflect: slice index out of range'')
   \<and> dump (Suc n) e (newDumpState c) (VSlice t (Some [])) = Inl (Panic ''reflect: slice index out of range'')
   \<and> dump (Suc n) e (newDumpState c) (VArray t []) = Inl (Panic ''reflect: array index out of range'')
   \<and> dumpKind (dump n e) e (newDumpState c) False (VSlice t None) = Inr (Write (newDumpState c) ''nil'')"
  by (simp add: dumpBody_def printTypeInfo_def newDumpState_def indent_def Index_def Write_def)

section \<open>A pointer that reaches itself at its own depth\<close>

lemma chain_self_loop:
  "ve c = VPtr t1 1 \<Longrightarrow> map_of (seen c) 1 = None \<or> map_of (seen c) 1 = Some 0 \<Longrightarrow>
   chainLoop n (\<lambda>a. VInterface t2 (Some (VPtr t1 1))) 0 c = None"
proof (induction n arbitrary: c)
  case 0
  show ?case by simp
next
  case (Suc n)
  let ?c' = "c\<lparr>indirects := indirects c + 1, pointerChain := pointerChain c @ [1],
                seen := AList.update 1 0 (seen c), ve := VPtr t1 1\<rparr>"
  from Suc.prems have "chainStep (\<lambda>a. VInterface t2 (Some (VPtr t1 1))) 0 c = Inr ?c'"
    by (auto simp: chainStep_def Let_def)
  moreover have "chainLoop n (\<lambda>a. VInterface t2 (Some (VPtr t1 1))) 0 ?c' = None"
    by (rule Suc.IH) (simp_all add: update_conv')
  ultimately show ?case by simp
qed

text \<open>
  Claim C3, at an input where the code departs from it: the interface variable that holds
  a pointer to itself (\<^verbatim>\<open>var i interface{}; i = &i\<close>, dumped).  Address 1 holds the
  interface, whose content is the pointer to address 1.  The chain loop records the
  address at the current depth and meets it again at that same depth, which is not
  strictly less: no cycle is declared, and the loop goes round for ever.  With any fuel
  the run ends out of fuel.
\<close>

theorem dump_self_pointer_never_returns:
  "dump n (e\<lparr>heap := (\<lambda>a. VInterface t2 (Some (VPtr t1 1)))\<rparr>) (newDumpState c) (VPtr t1 1)
     = Inl OutOfFuel"
proof (cases n)
  case 0
  then show ?thesis by simp
next
  case (Suc m)
  have "chainLoop m (\<lambda>a. VInterface t2 (Some (VPtr t1 1))) 0
          (chainStart (newDumpState c\<lparr>pointers := purgePointers 0 []\<rparr>) (VPtr t1 1)) = None"
    by (rule chain_self_loop) (simp_all add: chainStart_def newDumpState_def purgePointers_def)
  then show ?thesis
    by (simp add: Suc dumpBody_def indent_def dumpPtr_def newDumpState_def Write_def)
qed

text \<open>
  For contrast, a cycle that passes through a struct is found: the second pointer is
  met one level further down than it was recorded.
\<close>

lemma dump_two_node_cycle:
  "map_sum id w (dump 6 exampleCycleEnv (newDumpState exampleConfig) exampleNodePtr)
     = Inr ''var _ = &main.Node{\<newline> Next: &main.Node{\<newline>  Next: *main.Node<already shown>,\<newline> },\<newline>}''"
  by (simp add: exampleCycleEnv_def exampleNode_def exampleNodePtr_def example_unfold
      dumpPtr_def ptrTypeInfo_def ptrValue_def Addressable_def
      chainStart_def chainStep_def purgePointers_def AList.delete_eq eval_nat_numeral)

section \<open>Backticks in raw string literals\<close>

text \<open>
  Claim C8, at an input where the code departs from it: the string of one backtick and a
  newline.  The regular expression needs two backticks on one line; a backtick without
  a partner on its line is written as it is, and ends the raw literal early.  A pair of
  backticks on one line is spliced (the last conjunct).
\<close>

theorem dumpString_unpaired_backtick:
  "spliceBackticks [CHR 0x60, CHR 0x0A] = [CHR 0x60, CHR 0x0A]
   \<and> dumpKind rec e d bs (VString t [CHR 0x60, CHR 0x0A])
       = Inr (Write d [CHR 0x60, CHR 0x60, CHR 0x0A, CHR 0x60])
   \<and> spliceBackticks [CHR 0x60, CHR ''a'', CHR 0x60, CHR 0x0A]
       = [CHR 0x60, CHR ''+'', CHR 0x22, CHR 0x60, CHR ''a'', CHR 0x60, CHR 0x22, CHR ''+'', CHR 0x60, CHR 0x0A]"
  by (simp add: dumpString_def)

section \<open>The recorded pointers keep distinct keys\<close>

text \<open>
  The traversal keeps the keys of the recorded pointers distinct: every state that a dump
  from a fresh state returns, and every state in between, represents a Go map.
\<close>

lemma distinctPointers_Write [simp]: "distinctPointers (Write d s) = distinctPointers d"
  by (simp add: distinctPointers_def Write_def)

lemma distinctPointers_updates [simp]:
  "distinctPointers (d\<lparr>depth := x\<rparr>) = distinctPointers d"
  "distinctPointers (d\<lparr>ignoreNextType := b\<rparr>) = distinctPointers d"
  "distinctPointers (d\<lparr>ignoreNextIndent := b\<rparr>) = distinctPointers d"
  "distinctPointers (d\<lparr>importsMap := m\<rparr>) = distinctPointers d"
  by (simp_all add: distinctPointers_def)

lemma indent_pointers: "indent d = Inr d' \<Longrightarrow> distinctPointers d' = distinctPointers d"
  by (auto simp: indent_def split: if_splits)

lemma distinctPointers_addImport [simp]: "distinctPointers (addImport d p a) = distinctPointers d"
  by (simp add: addImport_def Let_def)

lemma k8sType_pointers: "k8sType e d v = Inr (nm, d') \<Longrightarrow> distinctPointers d' = distinctPointers d"
  by (auto simp: k8sType_def andThen_eq_Inr Let_def split: if_splits prod.splits)

lemma quantityLiteral_pointers:
  "quantityLiteral e d v = Inr (bs, d') \<Longrightarrow> distinctPointers d' = distinctPointers d"
  by (auto simp: quantityLiteral_def andThen_eq_Inr Let_def split: if_splits)

lemma printTypeInfo_pointers:
  "printTypeInfo e d v = Inr (bs, d') \<Longrightarrow> distinctPointers d' = distinctPointers d"
  by (auto simp: printTypeInfo_def andThen_eq_Inr Let_def
           dest!: indent_pointers k8sType_pointers quantityLiteral_pointers
           split: if_splits prod.splits)

lemma callMethods_pointers:
  "callMethods e d v = (h, d') \<Longrightarrow> distinctPointers d' = distinctPointers d"
  by (auto simp: callMethods_def Let_def split: if_splits prod.splits)

lemma keepsDistinctD:
  "keepsDistinct rec \<Longrightarrow> rec d v = Inr d' \<Longrightarrow> distinctPointers d \<Longrightarrow> distinctPointers d'"
  by (auto simp: keepsDistinct_def)

lemma dumpElems_pointers:
  "keepsDistinct rec \<Longrightarrow> dumpElems rec e xs d = Inr d' \<Longrightarrow> distinctPointers d
   \<Longrightarrow> distinctPointers d'"
proof (induction xs arbitrary: d)
  case Nil
  then show ?case by simp
next
  case (Cons y ys)
  from Cons.prems(2) obtain d1 where r: "rec d (unpackValue y) = Inr d1"
    and l: "dumpElems rec e ys (Write d1 (commaNewlineBytes e)) = Inr d'"
    by (auto simp: andThen_eq_Inr)
  from keepsDistinctD[OF Cons.prems(1) r Cons.prems(3)]
  show ?case by (intro Cons.IH[OF Cons.prems(1) l]) simp
qed

lemma dumpSlice_pointers:
  "keepsDistinct rec \<Longrightarrow> dumpSlice rec e d v = Inr d' \<Longrightarrow> distinctPointers d \<longrightarrow> distinctPointers d'"
  by (auto simp: dumpSlice_def andThen_eq_Inr dest: dumpElems_pointers split: option.splits)

lemma dumpArray_pointers:
  "keepsDistinct rec \<Longrightarrow> dumpArray rec e d v bs = Inr d' \<Longrightarrow> distinctPointers d \<longrightarrow> distinctPointers d'"
  by (auto simp: dumpArray_def andThen_eq_Inr Let_def dest!: dumpSlice_pointers indent_pointers
           split: if_splits)

lemma dumpKeys_pointers:
  "keepsDistinct rec \<Longrightarrow> dumpKeys rec e es ks d = Inr d' \<Longrightarrow> distinctPointers d
   \<Longrightarrow> distinctPointers d'"
proof (induction ks arbitrary: d)
  case Nil
  then show ?case by simp
next
  case (Cons k ks)
  from Cons.prems(2) obtain d1 d2 where r1: "rec d (unpackValue k) = Inr d1"
    and r2: "rec (Write d1 (colonSpaceBytes e)\<lparr>ignoreNextIndent := True\<rparr>)
                 (unpackValue (MapIndex es k)) = Inr d2"
    and l: "dumpKeys rec e es ks (Write d2 (commaNewlineBytes e)) = Inr d'"
    by (auto simp: andThen_eq_Inr Let_def)
  from keepsDistinctD[OF Cons.prems(1) r1 Cons.prems(3)]
  have "distinctPointers (Write d1 (colonSpaceBytes e)\<lparr>ignoreNextIndent := True\<rparr>)" by simp
  from keepsDistinctD[OF Cons.prems(1) r2 this]
  show ?case by (intro Cons.IH[OF Cons.prems(1) l]) simp
qed

lemma dumpKeys_pointers':
  "keepsDistinct rec \<Longrightarrow> dumpKeys rec e es ks d = Inr d' \<Longrightarrow> distinctPointers d \<longrightarrow> distinctPointers d'"
  by (auto dest: dumpKeys_pointers)

lemma dumpMap_pointers:
  "keepsDistinct rec \<Longrightarrow> dumpMap rec e d m = Inr d' \<Longrightarrow> distinctPointers d \<longrightarrow> distinctPointers d'"
  by (auto simp: dumpMap_def andThen_eq_Inr Let_def dest!: dumpKeys_pointers' indent_pointers
           split: if_splits option.splits)

lemma dumpFields_pointers:
  "keepsDistinct rec \<Longrightarrow> dumpFields rec e fs d = Inr d' \<Longrightarrow> distinctPointers d
   \<Longrightarrow> distinctPointers d'"
proof (induction fs arbitrary: d)
  case Nil
  then show ?case by simp
next
  case (Cons p fs)
  obtain nm f where p: "p = (nm, f)" by (cases p)
  show ?case
  proof (cases "isZero f")
    case True
    with Cons p show ?thesis by simp
  next
    case False
    with Cons.prems(2) p obtain d1 d2 where i: "indent d = Inr d1"
      and r: "rec (Write (Write d1 nm) (colonSpaceBytes e)\<lparr>ignoreNextIndent := True\<rparr>)
                  (unpackValue f) = Inr d2"
      and l: "dumpFields rec e fs (Write d2 (commaNewlineBytes e)) = Inr d'"
      by (auto simp: andThen_eq_Inr Let_def)
    from indent_pointers[OF i] Cons.prems(3)
    have "distinctPointers (Write (Write d1 nm) (colonSpaceBytes e)\<lparr>ignoreNextIndent := True\<rparr>)"
      by simp
    from keepsDistinctD[OF Cons.prems(1) r this]
    show ?thesis by (intro Cons.IH[OF Cons.prems(1) l]) simp
  qed
qed

lemma dumpFields_pointers':
  "keepsDistinct rec \<Longrightarrow> dumpFields rec e fs d = Inr d' \<Longrightarrow> distinctPointers d \<longrightarrow> distinctPointers d'"
  by (auto dest: dumpFields_pointers)

lemma dumpStruct_pointers:
  "keepsDistinct rec \<Longrightarrow> dumpStruct rec e d t fs = Inr d' \<Longrightarrow> distinctPointers d \<longrightarrow> distinctPointers d'"
  by (auto simp: dumpStruct_def andThen_eq_Inr Let_def dest!: dumpFields_pointers' indent_pointers
           split: if_splits)

lemma distinctPointers_dumpString [simp]:
  "distinctPointers (dumpString e d s) = distinctPointers d"
  by (simp add: dumpString_def)

lemma dumpKind_pointers:
  "keepsDistinct rec \<Longrightarrow> dumpKind rec e d bs v = Inr d' \<Longrightarrow> distinctPointers d \<longrightarrow> distinctPointers d'"
  by (cases v)
    (auto dest: dumpArray_pointers dumpMap_pointers dumpStruct_pointers split: if_splits)

lemma purge_fold_distinct:
  "distinct (map fst m) \<Longrightarrow>
   distinct (map fst (fold (\<lambda>(k, pd) m. if pd \<ge> dep then AList.delete k m else m) xs m))"
proof (induction xs arbitrary: m)
  case Nil
  then show ?case by simp
next
  case (Cons x xs)
  obtain k pd where x: "x = (k, pd)" by (cases x)
  show ?case using Cons.prems by (auto simp: x intro!: Cons.IH distinct_delete)
qed

lemma purgePointers_distinct: "distinct (map fst ps) \<Longrightarrow> distinct (map fst (purgePointers dep ps))"
  by (simp add: purgePointers_def purge_fold_distinct)

lemma chainStep_distinct:
  assumes "chainStep h dep c0 = Inl c \<or> chainStep h dep c0 = Inr c" "distinct (map fst (seen c0))"
  shows "distinct (map fst (seen c))"
  using assms
  by (cases "ve c0") (auto simp: chainStep_def Let_def distinct_update split: if_splits option.splits)

lemma chainLoop_distinct:
  "chainLoop n h dep c0 = Some c \<Longrightarrow> distinct (map fst (seen c0)) \<Longrightarrow> distinct (map fst (seen c))"
proof (induction n arbitrary: c0)
  case 0
  then show ?case by simp
next
  case (Suc n)
  show ?case
  proof (cases "chainStep h dep c0")
    case (Inl fin)
    with Suc.prems chainStep_distinct[of h dep c0 fin] show ?thesis by simp
  next
    case (Inr c1)
    with Suc.prems chainStep_distinct[of h dep c0 c1] Suc.IH[of c1] show ?thesis by simp
  qed
qed

lemma ptrTypeInfo_pointers:
  "ptrTypeInfo e d c a = Inr d' \<Longrightarrow> distinctPointers d' = distinctPointers d"
  by (auto simp: ptrTypeInfo_def andThen_eq_Inr Let_def dest!: k8sType_pointers split: if_splits)

lemma ptrValue_pointers:
  "keepsDistinct rec \<Longrightarrow> ptrValue rec e d c = Inr d' \<Longrightarrow> distinctPointers d \<longrightarrow> distinctPointers d'"
  by (auto simp: ptrValue_def dest: keepsDistinctD split: if_splits)

lemma dumpPtr_pointers:
  assumes k: "keepsDistinct rec" and r: "dumpPtr n rec e d v = Inr d'"
  shows "distinctPointers d \<longrightarrow> distinctPointers d'"
proof
  assume i: "distinctPointers d"
  from r obtain c where c: "chainLoop n (heap e) (depth d)
       (chainStart (d\<lparr>pointers := purgePointers (depth d) (pointers d)\<rparr>) v) = Some c"
    by (auto simp: dumpPtr_def split: option.splits)
  have "distinct (map fst (seen c))"
    using i by (intro chainLoop_distinct[OF c])
      (simp add: chainStart_def distinctPointers_def purgePointers_distinct)
  then have s: "distinctPointers (d\<lparr>pointers := seen c\<rparr>)"
    by (simp add: distinctPointers_def)
  from r c s show "distinctPointers d'"
    by (auto simp: dumpPtr_def Let_def andThen_eq_Inr
        dest!: ptrTypeInfo_pointers ptrValue_pointers[OF k] split: if_splits)
qed

lemma dumpBody_pointers:
  assumes k: "keepsDistinct rec" and r: "dumpBody rec n e d v = Inr d'"
  shows "distinctPointers d \<longrightarrow> distinctPointers d'"
proof (cases "kindOf v = Invalid \<or> kindOf v = Ptr")
  case True
  with r show ?thesis
    by (auto simp: dumpBody_def andThen_eq_Inr dest!: indent_pointers dumpPtr_pointers[OF k]
        split: if_splits)
next
  case False
  with r obtain bs d1 where p: "printTypeInfo e d v = Inr (bs, d1)"
    and c: "(let d = d1\<lparr>ignoreNextType := False\<rparr>; (handled, d) = callMethods e d v
             in if handled then Inr d else dumpKind rec e d bs v) = Inr d'"
    by (auto simp: dumpBody_def andThen_eq_Inr)
  obtain h d2 where m: "callMethods e (d1\<lparr>ignoreNextType := False\<rparr>) v = (h, d2)"
    by (cases "callMethods e (d1\<lparr>ignoreNextType := False\<rparr>) v")
  from printTypeInfo_pointers[OF p] callMethods_pointers[OF m]
  have "distinctPointers d2 = distinctPointers d" by simp
  with c m show ?thesis
    by (auto simp: Let_def dest!: dumpKind_pointers[OF k] split: if_splits)
qed

lemma dump_keepsDistinct: "keepsDistinct (dump n e)"
proof (induction n)
  case 0
  show ?case by (simp add: keepsDistinct_def)
next
  case (Suc n)
  show ?case unfolding keepsDistinct_def
    by (auto dest!: dumpBody_pointers[OF Suc])
qed

lemma newDumpState_distinct: "distinctPointers (newDumpState c)"
  by (simp add: distinctPointers_def newDumpState_def)

lemma dump_fresh_distinct:
  "dump n e (newDumpState c) v = Inr d' \<Longrightarrow> distinctPointers d'"
  using keepsDistinctD[OF dump_keepsDistinct _ newDumpState_distinct] by blast


section \<open>The cycle tracker\<close>






lemma kindOf_Invalid: "kindOf v = Invalid \<longleftrightarrow> v = VInvalid"
  by (cases v)
    (auto split: intSize.splits uintSize.splits floatSize.splits complexSize.splits refKind.splits)












section \<open>The writer only grows\<close>

lemma w_Write [simp]: "w (Write d s) = w d @ s"
  by (simp add: Write_def)

lemma indent_w: "indent d = Inr d' \<Longrightarrow> \<exists>ws. w d' = w d @ ws"
  by (auto simp: indent_def split: if_splits)

lemma w_addImport [simp]: "w (addImport d p a) = w d"
  by (simp add: addImport_def Let_def)

lemma k8sType_w: "k8sType e d v = Inr (nm, d') \<Longrightarrow> w d' = w d"
  by (auto simp: k8sType_def andThen_eq_Inr Let_def split: if_splits prod.splits)

lemma quantityLiteral_w: "quantityLiteral e d v = Inr (bs, d') \<Longrightarrow> \<exists>ws. w d' = w d @ ws"
  by (auto simp: quantityLiteral_def andThen_eq_Inr Let_def split: if_splits)

lemma printTypeInfo_w: "printTypeInfo e d v = Inr (bs, d') \<Longrightarrow> \<exists>ws. w d' = w d @ ws"
  by (auto simp: printTypeInfo_def andThen_eq_Inr Let_def
           dest!: indent_w k8sType_w quantityLiteral_w split: if_splits prod.splits)

lemma callMethods_w: "callMethods e d v = (h, d') \<Longrightarrow> \<exists>ws. w d' = w d @ ws"
  by (auto simp: callMethods_def Let_def split: if_splits prod.splits)

lemma appendsOnlyD: "appendsOnly rec \<Longrightarrow> rec d v = Inr d' \<Longrightarrow> \<exists>ws. w d' = w d @ ws"
  by (auto simp: appendsOnly_def prefix_def)

lemma dumpElems_w:
  "appendsOnly rec \<Longrightarrow> dumpElems rec e xs d = Inr d' \<Longrightarrow> \<exists>ws. w d' = w d @ ws"
proof (induction xs arbitrary: d)
  case Nil
  then show ?case by simp
next
  case (Cons y ys)
  from Cons.prems(2) obtain d1 where r: "rec d (unpackValue y) = Inr d1"
    and l: "dumpElems rec e ys (Write d1 (commaNewlineBytes e)) = Inr d'"
    by (auto simp: andThen_eq_Inr)
  from Cons.IH[OF Cons.prems(1) l] appendsOnlyD[OF Cons.prems(1) r]
  show ?case by auto
qed

lemma dumpSlice_w:
  "appendsOnly rec \<Longrightarrow> dumpSlice rec e d v = Inr d' \<Longrightarrow> \<exists>ws. w d' = w d @ ws"
  by (auto simp: dumpSlice_def andThen_eq_Inr dest: dumpElems_w split: option.splits)

lemma dumpArray_w:
  "appendsOnly rec \<Longrightarrow> dumpArray rec e d v bs = Inr d' \<Longrightarrow> \<exists>ws. w d' = w d @ ws"
  by (auto simp: dumpArray_def andThen_eq_Inr Let_def dest!: dumpSlice_w indent_w
           split: if_splits)

lemma dumpKeys_w:
  "appendsOnly rec \<Longrightarrow> dumpKeys rec e es ks d = Inr d' \<Longrightarrow> \<exists>ws. w d' = w d @ ws"
proof (induction ks arbitrary: d)
  case Nil
  then show ?case by simp
next
  case (Cons k ks)
  from Cons.prems(2) obtain d1 d2 where r1: "rec d (unpackValue k) = Inr d1"
    and r2: "rec (Write d1 (colonSpaceBytes e)\<lparr>ignoreNextIndent := True\<rparr>)
                 (unpackValue (MapIndex es k)) = Inr d2"
    and l: "dumpKeys rec e es ks (Write d2 (commaNewlineBytes e)) = Inr d'"
    by (auto simp: andThen_eq_Inr Let_def)
  from Cons.IH[OF Cons.prems(1) l] appendsOnlyD[OF Cons.prems(1) r1]
    appendsOnlyD[OF Cons.prems(1) r2]
  show ?case by auto
qed

lemma dumpMap_w:
  "appendsOnly rec \<Longrightarrow> dumpMap rec e d m = Inr d' \<Longrightarrow> \<exists>ws. w d' = w d @ ws"
  by (auto simp: dumpMap_def andThen_eq_Inr Let_def dest!: dumpKeys_w indent_w
           split: if_splits option.splits)

lemma dumpFields_w:
  "appendsOnly rec \<Longrightarrow> dumpFields rec e fs d = Inr d' \<Longrightarrow> \<exists>ws. w d' = w d @ ws"
proof (induction fs arbitrary: d)
  case Nil
  then show ?case by simp
next
  case (Cons p fs)
  obtain nm f where p: "p = (nm, f)" by (cases p)
  show ?case
  proof (cases "isZero f")
    case True
    with Cons p show ?thesis by simp
  next
    case False
    with Cons.prems(2) p obtain d1 d2 where i: "indent d = Inr d1"
      and r: "rec (Write (Write d1 nm) (colonSpaceBytes e)\<lparr>ignoreNextIndent := True\<rparr>)
                  (unpackValue f) = Inr d2"
      and l: "dumpFields rec e fs (Write d2 (commaNewlineBytes e)) = Inr d'"
      by (auto simp: andThen_eq_Inr Let_def)
    from Cons.IH[OF Cons.prems(1) l] appendsOnlyD[OF Cons.prems(1) r] indent_w[OF i]
    show ?thesis by auto
  qed
qed

lemma dumpStruct_w:
  "appendsOnly rec \<Longrightarrow> dumpStruct rec e d t fs = Inr d' \<Longrightarrow> \<exists>ws. w d' = w d @ ws"
  by (auto simp: dumpStruct_def andThen_eq_Inr Let_def dest!: dumpFields_w indent_w
           split: if_splits)

lemma dumpString_w: "\<exists>ws. w (dumpString e d s) = w d @ ws"
  by (simp add: dumpString_def)

lemma dumpKind_w:
  "appendsOnly rec \<Longrightarrow> dumpKind rec e d bs v = Inr d' \<Longrightarrow> \<exists>ws. w d' = w d @ ws"
  by (cases v) (auto simp: dumpString_w dest: dumpArray_w dumpMap_w dumpStruct_w split: if_splits)

lemma ptrTypeInfo_w: "ptrTypeInfo e d c a = Inr d' \<Longrightarrow> \<exists>ws. w d' = w d @ ws"
  by (auto simp: ptrTypeInfo_def andThen_eq_Inr Let_def dest!: k8sType_w split: if_splits)

lemma ptrValue_w:
  "appendsOnly rec \<Longrightarrow> ptrValue rec e d c = Inr d' \<Longrightarrow> \<exists>ws. w d' = w d @ ws"
  by (auto simp: ptrValue_def dest!: appendsOnlyD split: if_splits)

lemma dumpPtr_w:
  assumes k: "appendsOnly rec" and r: "dumpPtr n rec e d v = Inr d'"
  shows "\<exists>ws. w d' = w d @ ws"
  using r
  by (auto simp: dumpPtr_def Let_def andThen_eq_Inr
      dest!: ptrTypeInfo_w ptrValue_w[OF k] split: option.splits if_splits)

lemma dumpBody_w:
  assumes k: "appendsOnly rec" and r: "dumpBody rec n e d v = Inr d'"
  shows "\<exists>ws. w d' = w d @ ws"
proof (cases "kindOf v = Invalid \<or> kindOf v = Ptr")
  case True
  with r show ?thesis
    by (auto simp: dumpBody_def andThen_eq_Inr dest!: indent_w dumpPtr_w[OF k] split: if_splits)
next
  case False
  with r obtain bs d1 where p: "printTypeInfo e d v = Inr (bs, d1)"
    and c: "(let d = d1\<lparr>ignoreNextType := False\<rparr>; (handled, d) = callMethods e d v
             in if handled then Inr d else dumpKind rec e d bs v) = Inr d'"
    by (auto simp: dumpBody_def andThen_eq_Inr)
  obtain h d2 where m: "callMethods e (d1\<lparr>ignoreNextType := False\<rparr>) v = (h, d2)"
    by (cases "callMethods e (d1\<lparr>ignoreNextType := False\<rparr>) v")
  from c m have "\<exists>ws. w d' = w d2 @ ws"
    by (auto simp: Let_def dest!: dumpKind_w[OF k] split: if_splits)
  with callMethods_w[OF m] printTypeInfo_w[OF p] show ?thesis by auto
qed

lemma dump_appendsOnly: "appendsOnly (dump n e)"
proof (induction n)
  case 0
  show ?case by (simp add: appendsOnly_def)
next
  case (Suc n)
  show ?case unfolding appendsOnly_def
    by (auto simp: prefix_def dest: dumpBody_w[OF Suc])
qed

section \<open>The prefix of a top-level pointer\<close>

lemma k8sType_name_any:
  assumes "k8sType e d v = Inr (name, dk)"
  shows "\<exists>dk'. k8sType e d0 v = Inr (name, dk')"
proof -
  from assms obtain t where t: "typeOf v = Inr t"
    by (cases "typeOf v") (auto simp: k8sType_def)
  show ?thesis
  proof (cases "Index v 0")
    case (Inl err)
    with assms t show ?thesis
      by (simp add: k8sType_def Let_def split_def split: if_splits)
  next
    case (Inr x0)
    show ?thesis
    proof (cases "typeOf x0")
      case (Inl err)
      with assms t Inr show ?thesis
        by (simp add: k8sType_def Let_def split_def split: if_splits)
    next
      case (Inr xt)
      with assms t \<open>Index v 0 = Inr x0\<close> show ?thesis
        by (simp add: k8sType_def Let_def split_def split: if_splits)
    qed
  qed
qed

lemma indent_depth0: "indent d = Inr d1 \<Longrightarrow> depth d = 0 \<Longrightarrow> w d1 = w d"
  by (auto simp: indent_def split: if_splits)

text \<open>
  Claim C10.  \<open>v\<close> is a pointer, \<open>d1\<close> the state after the indentation, and \<open>c\<close> the state in
  which the chain loop is left, with no nil found and a value that can be prefixed with
  \<^verbatim>\<open>&\<close> (an array, chan, func, interface, map, pointer, slice, struct or unsafe pointer).
  When \<^verbatim>\<open>dump\<close> returns, then at depth 0 the text it wrote starts with \<^verbatim>\<open>var _ = \<close>, the
  address-of prefixes and the type name; at any other depth the text after the
  indentation starts with the address-of prefixes and the type name, with no such prefix
  before them.
\<close>

theorem dump_pointer_var_prefix:
  assumes ptr: "kindOf v = Ptr" and ind: "indent d = Inr d1"
    and loop: "chainLoop n (heap e) (depth d1)
                 (chainStart (d1\<lparr>pointers := purgePointers (depth d1) (pointers d1)\<rparr>) v) = Some c"
    and nn: "\<not> nilFound c" and addr: "Addressable (ve c) = Inr True"
    and ret: "dump (Suc n) e d v = Inr d'"
  shows "\<exists>name dk rest. k8sType e d (ve c) = Inr (name, dk)
       \<and> (depth d = 0 \<longrightarrow>
            w d' = w d @ ''var _ = '' @ concat (replicate (indirects c) (amperBytes e)) @ name @ rest)
       \<and> (depth d \<noteq> 0 \<longrightarrow>
            w d' = w d1 @ concat (replicate (indirects c) (amperBytes e)) @ name @ rest)"
proof -
  let ?amps = "concat (replicate (indirects c) (amperBytes e))"
  let ?d2 = "d1\<lparr>pointers := seen c\<rparr>"
  have dd: "depth d1 = depth d" by (rule indent_depth[OF ind])
  from ret ptr ind have "dumpPtr n (dump n e) e d1 v = Inr d'"
    by (simp add: dumpBody_def)
  with loop nn addr obtain d3 where t: "ptrTypeInfo e ?d2 c True = Inr d3"
    and b: "ptrValue (dump n e) e d3 c = Inr d'"
    by (auto simp: dumpPtr_def Let_def andThen_eq_Inr)
  let ?dA = "if depth ?d2 = 0 then Write ?d2 ''var _ = '' else ?d2"
  from t obtain name dk0 where k: "k8sType e (Write ?dA ?amps) (ve c) = Inr (name, dk0)"
    and d3: "d3 = Write dk0 name"
    by (auto simp: ptrTypeInfo_def Let_def andThen_eq_Inr split: if_splits)
  from k8sType_w[OF k] d3 have w3: "w d3 = w ?dA @ ?amps @ name" by simp
  from ptrValue_w[OF dump_appendsOnly b] obtain rest where r: "w d' = w d3 @ rest" by blast
  from k8sType_name_any[OF k] obtain dk where k': "k8sType e d (ve c) = Inr (name, dk)" by blast
  have "depth d = 0 \<longrightarrow> w d' = w d @ ''var _ = '' @ ?amps @ name @ rest"
    using r w3 dd indent_depth0[OF ind] by simp
  moreover have "depth d \<noteq> 0 \<longrightarrow> w d' = w d1 @ ?amps @ name @ rest"
    using r w3 dd by simp
  ultimately show ?thesis using k' by blast
qed

theorem dump_pointer_var_prefix_witness:
  "kindOf exampleStructPtr = Ptr
   \<and> indent (newDumpState exampleConfig) = Inr (newDumpState exampleConfig)
   \<and> chainLoop 3 (heap exampleHeapEnv) 0
        (chainStart ((newDumpState exampleConfig)\<lparr>pointers := purgePointers 0 []\<rparr>) exampleStructPtr)
      = Some \<lparr>nilFound = False, cycleFound = False, indirects = 1, ve = exampleStruct,
              pointerChain = [1], seen = [(1, 0)]\<rparr>
   \<and> Addressable exampleStruct = Inr True
   \<and> (\<exists>d' rest. dump 4 exampleHeapEnv (newDumpState exampleConfig) exampleStructPtr = Inr d'
          \<and> w d' = ''var _ = &main.T'' @ rest)"
proof -
  let ?d = "newDumpState exampleConfig"
  let ?c = "\<lparr>nilFound = False, cycleFound = False, indirects = 1, ve = exampleStruct,
              pointerChain = [1], seen = [(1, 0)]\<rparr>"
  have ptr: "kindOf exampleStructPtr = Ptr" by (simp add: exampleStructPtr_def)
  have ind: "indent ?d = Inr ?d"
    by (simp add: indent_def newDumpState_def Write_def)
  have loop: "chainLoop 3 (heap exampleHeapEnv) (depth ?d)
        (chainStart (?d\<lparr>pointers := purgePointers (depth ?d) (pointers ?d)\<rparr>) exampleStructPtr)
      = Some ?c"
    by (simp add: numeral_3_eq_3 exampleHeapEnv_def exampleStructPtr_def exampleStruct_def
        chainStart_def chainStep_def Let_def newDumpState_def purgePointers_def)
  have nn: "\<not> nilFound ?c" by simp
  have addr: "Addressable (ve ?c) = Inr True"
    by (simp add: Addressable_def exampleStruct_def)
  have "\<exists>d'. dump (Suc 3) exampleHeapEnv ?d exampleStructPtr = Inr d'"
    by (simp add: numeral_3_eq_3 dumpPtr_def ptrTypeInfo_def ptrValue_def Addressable_def
        chainStart_def chainStep_def purgePointers_def
        exampleHeapEnv_def exampleStructPtr_def exampleStruct_def example_unfold)
  then obtain d' where ret: "dump (Suc 3) exampleHeapEnv ?d exampleStructPtr = Inr d'" ..
  have name: "k8sType exampleHeapEnv ?d exampleStruct = Inr (name, dk) \<Longrightarrow> name = ''main.T''" for name dk
    by (simp add: exampleHeapEnv_def exampleStruct_def example_unfold)
  have d0: "depth ?d = 0" by (simp add: newDumpState_def)
  have w0: "w ?d = []" by (simp add: newDumpState_def)
  have amp: "amperBytes exampleHeapEnv = ''&''" by (simp add: exampleHeapEnv_def exampleEnv_def)
  from dump_pointer_var_prefix[OF ptr ind loop nn addr ret] name d0 w0 amp
  have "\<exists>rest. w d' = ''var _ = &main.T'' @ rest" by auto
  with ret have "\<exists>d' rest. dump 4 exampleHeapEnv ?d exampleStructPtr = Inr d'
          \<and> w d' = ''var _ = &main.T'' @ rest"
    by (auto simp: eval_nat_numeral)
  with ptr ind loop addr d0 show ?thesis
    by (simp add: newDumpState_def)
qed

section \<open>The struct block\<close>


lemma cs_addImport [simp]: "cs (addImport d p a) = cs d"
  by (simp add: addImport_def Let_def)












section \<open>The dependency set: adding and merging\<close>





section \<open>Determinism\<close>








section \<open>More fuel changes no result\<close>

text \<open>
  A run that ends with a result or a panic ends the same way with any more fuel: the
  fuel decides only whether the run is followed to its end.
\<close>

lemma below_refl [simp]: "below r r"
  by (simp add: below_def)

lemma below_andThen:
  assumes "below m1 m2" and "\<And>x. below (f1 x) (f2 x)"
  shows "below (andThen m1 f1) (andThen m2 f2)"
proof (cases m1)
  case (Inl err)
  with assms(1) show ?thesis by (auto simp: below_def)
next
  case (Inr x)
  with assms(1) have "m2 = Inr x" by (simp add: below_def)
  with Inr assms(2)[of x] show ?thesis by simp
qed

lemma below_andThen_same:
  "(\<And>x. below (f1 x) (f2 x)) \<Longrightarrow> below (andThen m f1) (andThen m f2)"
  by (rule below_andThen) simp_all

lemma below_if:
  "(c \<Longrightarrow> below a1 a2) \<Longrightarrow> (\<not> c \<Longrightarrow> below b1 b2)
   \<Longrightarrow> below (if c then a1 else b1) (if c then a2 else b2)"
  by simp

lemma recBelowD: "recBelow rec1 rec2 \<Longrightarrow> below (rec1 d v) (rec2 d v)"
  by (simp add: recBelow_def)

lemma dumpElems_below:
  assumes r: "recBelow rec1 rec2"
  shows "below (dumpElems rec1 e xs d) (dumpElems rec2 e xs d)"
proof (induction xs arbitrary: d)
  case Nil
  show ?case by simp
next
  case (Cons x xs)
  show ?case unfolding dumpElems.simps
    by (rule below_andThen[OF recBelowD[OF r]]) (rule Cons.IH)
qed

lemma dumpSlice_below:
  assumes r: "recBelow rec1 rec2"
  shows "below (dumpSlice rec1 e d v) (dumpSlice rec2 e d v)"
proof (cases "elems v")
  case None
  then show ?thesis by (simp add: dumpSlice_def)
next
  case (Some xs)
  have "below (case hex of Some buf \<Rightarrow>
                Inr (Write d (TrimRight ([CHR 0x60] @ buf @ [CHR 0x60]) (Indent (cs d))))
            | None \<Rightarrow> dumpElems rec1 e xs d)
          (case hex of Some buf \<Rightarrow>
                Inr (Write d (TrimRight ([CHR 0x60] @ buf @ [CHR 0x60]) (Indent (cs d))))
            | None \<Rightarrow> dumpElems rec2 e xs d)" for hex
    by (cases hex) (simp_all add: dumpElems_below[OF r])
  then show ?thesis unfolding dumpSlice_def Some option.case
    by (intro below_andThen_same)
qed

lemma dumpArray_below:
  assumes r: "recBelow rec1 rec2"
  shows "below (dumpArray rec1 e d v bs) (dumpArray rec2 e d v bs)"
  unfolding dumpArray_def Let_def
  by (intro below_andThen below_if below_refl dumpSlice_below[OF r])

lemma dumpKeys_below:
  assumes r: "recBelow rec1 rec2"
  shows "below (dumpKeys rec1 e es ks d) (dumpKeys rec2 e es ks d)"
proof (induction ks arbitrary: d)
  case Nil
  show ?case by simp
next
  case (Cons k ks)
  show ?case unfolding dumpKeys.simps Let_def
    by (rule below_andThen[OF recBelowD[OF r]], rule below_andThen[OF recBelowD[OF r]])
      (rule Cons.IH)
qed

lemma dumpMap_below:
  assumes r: "recBelow rec1 rec2"
  shows "below (dumpMap rec1 e d m) (dumpMap rec2 e d m)"
proof (cases m)
  case None
  then show ?thesis by (simp add: dumpMap_def)
next
  case (Some es)
  show ?thesis unfolding dumpMap_def Let_def Some option.case
    by (intro below_andThen below_if below_refl dumpKeys_below[OF r])
qed

lemma dumpFields_below:
  assumes r: "recBelow rec1 rec2"
  shows "below (dumpFields rec1 e fs d) (dumpFields rec2 e fs d)"
proof (induction fs arbitrary: d)
  case Nil
  show ?case by simp
next
  case (Cons p fs)
  obtain nm f where p: "p = (nm, f)" by (cases p)
  show ?case unfolding p dumpFields.simps Let_def
    by (intro below_if Cons.IH below_andThen_same below_andThen[OF recBelowD[OF r]])
qed

lemma dumpStruct_below:
  assumes r: "recBelow rec1 rec2"
  shows "below (dumpStruct rec1 e d t fs) (dumpStruct rec2 e d t fs)"
  unfolding dumpStruct_def Let_def
  by (intro below_andThen below_if below_refl dumpFields_below[OF r])

lemma dumpKind_below:
  "recBelow rec1 rec2 \<Longrightarrow> below (dumpKind rec1 e d bs v) (dumpKind rec2 e d bs v)"
  by (cases v) (simp_all add: dumpArray_below dumpMap_below dumpStruct_below)

lemma ptrValue_below:
  assumes r: "recBelow rec1 rec2"
  shows "below (ptrValue rec1 e d c) (ptrValue rec2 e d c)"
  unfolding ptrValue_def by (intro below_if below_refl recBelowD[OF r])

lemma chainLoop_Suc: "chainLoop n h dep c0 = Some c \<Longrightarrow> chainLoop (Suc n) h dep c0 = Some c"
proof (induction n arbitrary: c0)
  case 0
  then show ?case by simp
next
  case (Suc n)
  show ?case
  proof (cases "chainStep h dep c0")
    case (Inl fin)
    with Suc.prems show ?thesis by simp
  next
    case (Inr c1)
    with Suc.prems have "chainLoop n h dep c1 = Some c" by simp
    from Suc.IH[OF this] Inr show ?thesis by simp
  qed
qed

lemma dumpPtr_below:
  assumes "recBelow rec1 rec2"
  shows "below (dumpPtr n rec1 e d v) (dumpPtr (Suc n) rec2 e d v)"
proof (cases "chainLoop n (heap e) (depth d)
             (chainStart (d\<lparr>pointers := purgePointers (depth d) (pointers d)\<rparr>) v)")
  case None
  then show ?thesis by (simp add: dumpPtr_def below_def)
next
  case (Some c)
  have "below (andThen (Addressable (ve c)) (\<lambda>addressable.
             andThen (ptrTypeInfo e (d\<lparr>pointers := seen c\<rparr>) c addressable) (\<lambda>d.
             andThen (ptrValue rec1 e d c) (\<lambda>d.
               Inr (if \<not> addressable then Write d (closeParenBytes e) else d)))))
         (andThen (Addressable (ve c)) (\<lambda>addressable.
             andThen (ptrTypeInfo e (d\<lparr>pointers := seen c\<rparr>) c addressable) (\<lambda>d.
             andThen (ptrValue rec2 e d c) (\<lambda>d.
               Inr (if \<not> addressable then Write d (closeParenBytes e) else d)))))"
    by (intro below_andThen below_refl ptrValue_below[OF assms])
  then show ?thesis
    unfolding dumpPtr_def chainLoop_Suc[OF Some] Some by (simp add: Let_def)
qed

lemma dumpBody_below:
  assumes "recBelow rec1 rec2"
  shows "below (dumpBody rec1 n e d v) (dumpBody rec2 (Suc n) e d v)"
  unfolding dumpBody_def Let_def
  by (intro below_if below_andThen below_refl dumpPtr_below[OF assms])
    (auto split: prod.splits intro!: dumpKind_below[OF assms])

lemma dump_below_Suc: "recBelow (dump n e) (dump (Suc n) e)"
proof (induction n)
  case 0
  show ?case by (simp add: recBelow_def below_def)
next
  case (Suc n)
  show ?case unfolding recBelow_def
  proof (intro allI)
    fix d v
    have 1: "dump (Suc n) e d v = dumpBody (dump n e) n e d v"
      by (rule dump.simps(2))
    have 2: "dump (Suc (Suc n)) e d v = dumpBody (dump (Suc n) e) (Suc n) e d v"
      by (rule dump.simps(2))
    show "below (dump (Suc n) e d v) (dump (Suc (Suc n)) e d v)"
      unfolding 1 2 by (rule dumpBody_below[OF Suc])
  qed
qed

lemma dump_more_fuel:
  "dump n e d v \<noteq> Inl OutOfFuel \<Longrightarrow> dump (n + k) e d v = dump n e d v"
proof (induction k)
  case 0
  show ?case by simp
next
  case (Suc k)
  from recBelowD[OF dump_below_Suc, of "n + k" e d v] Suc show ?case
    by (auto simp: below_def)
qed

end
